theory Spec2Isabelle
  imports Main "HOL-Library.Word"
begin

unbundle bit_operations_syntax

section \<open>Data model of package sema\<close>

text \<open>
  The embedding follows the Go source of package \<open>sema\<close> function by function.

  Machine integers are words. Go's \<open>int\<close> is the 64-bit signed integer of the targets
  the repository builds and tests on; it is a \<open>64 word\<close> read through \<open>sint\<close>
  (comparisons are the signed ones, \<open><s\<close> and \<open>\<le>s\<close>). \<open>uint32\<close> and
  \<open>int32\<close> are \<open>32 word\<close>, the second read through \<open>sint\<close>; \<open>uint64\<close> is
  \<open>64 word\<close>. The Go conversions are \<open>ucast\<close> (truncation, zero extension) and
  \<open>scast\<close> (sign extension).
\<close>

type_synonym go_int = "64 word"
type_synonym uint32 = "32 word"
type_synonym int32 = "32 word"
type_synonym uint64 = "64 word"

text \<open>
  Channels of type \<open>chan struct{}\<close> are compared by identity only. \<open>nilChan\<close> is the
  nil channel (the package variable of that name), \<open>closedChan\<close> the package-level
  channel that \<open>init()\<close> closes, \<open>Chan k\<close> the \<open>k\<close>-th channel made at run time.
  An \<open>atomic.Value\<close> that holds channels is a \<open>chan option\<close>: \<open>None\<close> is the nil
  interface that \<open>Load\<close> returns before any \<open>Store\<close>.
\<close>

datatype chan = nilChan | closedChan | Chan nat

record Group =
  waitChan :: "chan option"
  blockChan :: "chan option"
  counter :: uint64
  size_g :: uint32

text \<open>
  What the operations touch outside the \<open>Group\<close>: the allocator of \<open>make(chan struct{})\<close>,
  the set of run-time channels that have been closed, and a logical clock. The clock only
  serves to say when a caller-supplied cancellation channel becomes receive-ready.
\<close>

record runtime =
  next_chan :: nat
  closed :: "nat set"
  now :: nat

text \<open>
  The \<open>doneChan\<close> argument of \<open>ReserveN\<close>: \<open>nilDone\<close> is a nil channel,
  \<open>readyAt (Some t)\<close> a channel that is receive-ready from time \<open>t\<close> on, and
  \<open>readyAt None\<close> a channel that never becomes ready.
\<close>

datatype done_chan = nilDone | readyAt "nat option"

text \<open>
  How a call ends: it returns a value, it panics with a message, or the goroutine parks
  on a receive that nothing will ever complete. Every operation also yields the
  \<open>Group\<close> and the run time as they are at that moment.
\<close>

datatype 'a outcome = Returns 'a | Panics string | Blocks

type_synonym 'a result = "'a outcome \<times> Group \<times> runtime"

definition zero_Group :: Group where
  "zero_Group = \<lparr>waitChan = None, blockChan = None, counter = 0, size_g = 0\<rparr>"

definition init_runtime :: runtime where
  "init_runtime = \<lparr>next_chan = 0, closed = {}, now = 0\<rparr>"

subsection \<open>Channel primitives\<close>

definition make_chan :: "runtime \<Rightarrow> chan \<times> runtime" where
  "make_chan r = (Chan (next_chan r), r\<lparr>next_chan := Suc (next_chan r)\<rparr>)"

text \<open>\<open>close(c)\<close>: the Go run time panics on a nil and on an already closed channel.\<close>

definition close_chan :: "chan \<Rightarrow> runtime \<Rightarrow> string + runtime" where
  "close_chan c r =
     (case c of
        nilChan \<Rightarrow> Inl ''close of nil channel''
      | closedChan \<Rightarrow> Inl ''close of closed channel''
      | Chan k \<Rightarrow>
          if k \<in> closed r then Inl ''close of closed channel''
          else Inr (r\<lparr>closed := insert k (closed r)\<rparr>))"

text \<open>Whether a receive \<open><-c\<close> completes: only a closed channel is receive-ready here.\<close>

definition recv_ready :: "chan \<Rightarrow> runtime \<Rightarrow> bool" where
  "recv_ready c r = (case c of nilChan \<Rightarrow> False | closedChan \<Rightarrow> True | Chan k \<Rightarrow> k \<in> closed r)"

text \<open>Whether \<open>doneChan\<close> is receive-ready now (a nil channel never is).\<close>

definition done_ready :: "done_chan \<Rightarrow> runtime \<Rightarrow> bool" where
  "done_ready d r = (case d of nilDone \<Rightarrow> False | readyAt None \<Rightarrow> False | readyAt (Some t) \<Rightarrow> t \<le> now r)"

subsection \<open>The packed counter\<close>

text \<open>
  \<^verbatim>\<open>func counterParts(counter uint64) (pending uint32, active int32) {
      return uint32(counter >> 32), int32(counter) }\<close>
\<close>

definition counterParts :: "uint64 \<Rightarrow> uint32 \<times> int32" where
  "counterParts c = (ucast (drop_bit 32 c), ucast c)"

text \<open>
  \<open>counterUpdate\<close> computes the new word and tries to install it with a
  compare-and-swap against the word the caller read. The result is
  \<open>(newCounter, ok)\<close> and the \<open>Group\<close> after the attempt.
\<close>

definition counterUpdate :: "Group \<Rightarrow> uint64 \<Rightarrow> go_int \<Rightarrow> go_int \<Rightarrow> uint64 \<times> bool \<times> Group" where
  "counterUpdate g oldCounter pendingDelta activeDelta =
     (let (oldPending, oldActive) = counterParts oldCounter;
          newPending0 = oldPending + ucast pendingDelta;
          newActive = oldActive + ucast activeDelta;
          newPending =
            (if 0 <s activeDelta \<and> newActive <s oldActive then newPending0 + 1
             else if activeDelta <s 0 \<and> oldActive <s newActive then newPending0 - 1
             else newPending0);
          newCounter = push_bit 32 (ucast newPending :: uint64) OR ucast newActive
      in if counter g = oldCounter
         then (newCounter, True, g\<lparr>counter := newCounter\<rparr>)
         else (newCounter, False, g))"

text \<open>
  The retry loop that \<open>ReserveN\<close>, \<open>TryReserveN\<close>, \<open>FreeN\<close> and
  \<open>reserveNAbortWait\<close> write inline:
  \<^verbatim>\<open>for ok := false; !ok; { counter := g.counter.Load()
                           counter, ok = g.counterUpdate(counter, dp, da) }\<close>
  It yields the last \<open>newCounter\<close> and the \<open>Group\<close>.
\<close>

function counterUpdateLoop :: "Group \<Rightarrow> go_int \<Rightarrow> go_int \<Rightarrow> uint64 \<times> Group" where
  "counterUpdateLoop g pendingDelta activeDelta =
     (case counterUpdate g (counter g) pendingDelta activeDelta of
        (newCounter, ok, g') \<Rightarrow>
          if ok then (newCounter, g') else counterUpdateLoop g' pendingDelta activeDelta)"
  by pat_completeness auto
termination
  by (relation "{}") (auto simp: counterUpdate_def Let_def split: prod.splits)

declare counterUpdateLoop.simps [simp del]

section \<open>Operations\<close>

text \<open>
  The operations are embedded as one goroutine runs them, with no other goroutine
  touching the \<open>Group\<close> during the call. So a compare-and-swap of a value that was just
  loaded succeeds, nothing sends on or receives from \<open>blockChan\<close> but the caller, and a
  channel is closed only by the caller itself. The cancellation channel is the one thing
  the outside controls; it becomes ready by the clock.
\<close>

subsection \<open>Construction and size\<close>

text \<open>
  \<^verbatim>\<open>func (g *Group) setSize(size int) {
      if size < 0 { size = 0 }
      if size > 0 {
          s := uint32(size)
          if int(s) != size { panic("sema.Group: incorrect group size") }
          g.size.Store(s)
          g.blockChan.Store(make(chan struct{})) } }\<close>
\<close>

definition setSize :: "Group \<Rightarrow> runtime \<Rightarrow> go_int \<Rightarrow> unit result" where
  "setSize g r size0 =
     (let sz = (if size0 <s 0 then 0 else size0) in
      if 0 <s sz then
        (let s = (ucast sz :: uint32) in
         if (ucast s :: go_int) \<noteq> sz then (Panics ''sema.Group: incorrect group size'', g, r)
         else (let g1 = g\<lparr>size_g := s\<rparr>;
                   (c, r1) = make_chan r
               in (Returns (), g1\<lparr>blockChan := Some c\<rparr>, r1)))
      else (Returns (), g, r))"

definition NewGroup :: "runtime \<Rightarrow> go_int \<Rightarrow> unit result" where
  "NewGroup r size0 = setSize zero_Group r size0"

definition SetSize :: "Group \<Rightarrow> runtime \<Rightarrow> go_int \<Rightarrow> unit result" where
  "SetSize g r size0 =
     (if counter g \<noteq> 0
      then (Panics ''sema.Group: concurrent Reserve calls while initializing group'', g, r)
      else if blockChan g \<noteq> None
      then (Panics ''sema.Group: group already initialized'', g, r)
      else (case setSize g r size0 of
              (Returns u, g', r') \<Rightarrow>
                if counter g' \<noteq> 0
                then (Panics ''sema.Group: concurrent Reserve calls while initializing group'', g', r')
                else (Returns (), g', r')
            | other \<Rightarrow> other))"

definition Size :: "Group \<Rightarrow> go_int" where
  "Size g = ucast (size_g g)"

definition ActiveCount :: "Group \<Rightarrow> go_int" where
  "ActiveCount g = scast (snd (counterParts (counter g)))"

definition PendingCount :: "Group \<Rightarrow> go_int" where
  "PendingCount g = ucast (fst (counterParts (counter g)))"

subsection \<open>Waking waiters\<close>

text \<open>
  \<open>notifyFree\<close> offers one token on \<open>blockChan\<close> while \<open>pending > 0\<close>. With no
  reserver parked on the channel the send is never taken, so the \<open>select\<close> takes its
  \<open>default\<close> branch: yield, load the counter again, test again. The loop may run forever;
  \<open>None\<close> is that case.
\<close>

partial_function (option) notifyFree_loop :: "Group \<Rightarrow> uint64 \<Rightarrow> uint64 option" where
  "notifyFree_loop g c =
     (if 0 <s (ucast (fst (counterParts c)) :: go_int)
      then notifyFree_loop g (counter g)
      else Some c)"

declare notifyFree_loop.simps [code]

definition notifyFree :: "Group \<Rightarrow> chan \<Rightarrow> uint64 option" where
  "notifyFree g blockChanVal = notifyFree_loop g (counter g)"

text \<open>\<open>g.waitChan.CompareAndSwap(old, new)\<close>.\<close>

definition cas_waitChan :: "Group \<Rightarrow> chan option \<Rightarrow> chan option \<Rightarrow> bool \<times> Group" where
  "cas_waitChan g old new = (if waitChan g = old then (True, g\<lparr>waitChan := new\<rparr>) else (False, g))"

text \<open>
  \<^verbatim>\<open>func (g *Group) notifyWait(pending uint32, active int32) {
      if pending > 0 || active > 0 { return }
      waitChan := g.waitChan.Load()
      if waitChan == nil || waitChan == nilChan { return }
      if !g.waitChan.CompareAndSwap(waitChan, nilChan) { return }
      close(waitChan.(chan struct{})) }\<close>
\<close>

definition notifyWait :: "Group \<Rightarrow> runtime \<Rightarrow> uint32 \<Rightarrow> int32 \<Rightarrow> unit result" where
  "notifyWait g r pending active =
     (if 0 < pending \<or> 0 <s active then (Returns (), g, r)
      else (case waitChan g of
              None \<Rightarrow> (Returns (), g, r)
            | Some w \<Rightarrow>
                if w = nilChan then (Returns (), g, r)
                else (case cas_waitChan g (Some w) (Some nilChan) of
                        (False, g') \<Rightarrow> (Returns (), g', r)
                      | (True, g') \<Rightarrow>
                          (case close_chan w r of
                             Inl msg \<Rightarrow> (Panics msg, g', r)
                           | Inr r' \<Rightarrow> (Returns (), g', r')))))"

subsection \<open>Reserving\<close>

text \<open>
  \<^verbatim>\<open>func (g *Group) tryReserve(size uint32, reserveN int, tryCall bool) bool {
      for {
          counter := g.counter.Load()
          pending, active := counterParts(counter)
          if pending == 0 && int(active)+reserveN <= int(size) {
              _, ok := g.counterUpdate(counter, 0, reserveN)
              if ok { return true }
              continue
          } else if !tryCall {
              _, ok := g.counterUpdate(counter, reserveN, 0)
              if ok { return false }
              continue
          } else { return false } } }\<close>
\<close>

function tryReserve :: "Group \<Rightarrow> uint32 \<Rightarrow> go_int \<Rightarrow> bool \<Rightarrow> bool \<times> Group" where
  "tryReserve g sz reserveN tryCall =
     (case counterParts (counter g) of
        (pending, active) \<Rightarrow>
          if pending = 0 \<and> (scast active + reserveN) \<le>s (ucast sz :: go_int) then
            (case counterUpdate g (counter g) 0 reserveN of
               (c', ok, g') \<Rightarrow> if ok then (True, g') else tryReserve g' sz reserveN tryCall)
          else if \<not> tryCall then
            (case counterUpdate g (counter g) reserveN 0 of
               (c', ok, g') \<Rightarrow> if ok then (False, g') else tryReserve g' sz reserveN tryCall)
          else (False, g))"
  by pat_completeness auto
termination
  by (relation "{}") (auto simp: counterUpdate_def Let_def split: prod.splits)

declare tryReserve.simps [simp del]

text \<open>
  \<^verbatim>\<open>func (g *Group) TryReserveN(n int) bool {
      if n <= 0 { panic("sema.Group: invalid group reserve N value") }
      size := g.size.Load()
      if size == 0 {
          for ok := false; !ok; { _, ok = g.counterUpdate(g.counter.Load(), 0, n) }
          return true }
      if n > int(size) { return false }
      return g.tryReserve(size, n, true) }\<close>
\<close>

definition TryReserveN :: "Group \<Rightarrow> go_int \<Rightarrow> bool outcome \<times> Group" where
  "TryReserveN g n =
     (if n \<le>s 0 then (Panics ''sema.Group: invalid group reserve N value'', g)
      else (let sz = size_g g in
            if sz = 0 then (case counterUpdateLoop g 0 n of (c, g') \<Rightarrow> (Returns True, g'))
            else if (ucast sz :: go_int) <s n then (Returns False, g)
            else (case tryReserve g sz n True of (b, g') \<Rightarrow> (Returns b, g'))))"

text \<open>
  \<^verbatim>\<open>func (g *Group) reserveNAbortWait(blockChan chan struct{}, reserveN int) {
      for ok := false; !ok; {
          counter := g.counter.Load()
          counter, ok = g.counterUpdate(counter, -reserveN, 0) }
      counter := g.notifyFree(blockChan)
      g.notifyWait(counterParts(counter)) }\<close>
\<close>

definition reserveNAbortWait :: "Group \<Rightarrow> runtime \<Rightarrow> chan \<Rightarrow> go_int \<Rightarrow> unit result option" where
  "reserveNAbortWait g r blockChanVal reserveN =
     (case counterUpdateLoop g (- reserveN) 0 of
        (c0, g1) \<Rightarrow>
          (case notifyFree g1 blockChanVal of
             None \<Rightarrow> None
           | Some c \<Rightarrow>
               (case counterParts c of (pending, active) \<Rightarrow> Some (notifyWait g1 r pending active))))"

text \<open>
  \<open>reserveNSlow\<close> parks in \<open>select { case <-blockChanVal: ...; case <-doneChan: ... }\<close>.
  A receive from \<open>blockChan\<close> completes only when a concurrent \<open>FreeN\<close> (or a reserver
  passing a token on) sends; in the execution embedded here there is none, so the only
  way out of the \<open>select\<close> is \<open>doneChan\<close>: the call aborts when the channel gets ready
  and parks forever when it is nil or never ready. The branch
  \<open>reserveNSuccessWait\<close> is therefore not reached and not embedded.
\<close>

definition reserveNSlow :: "Group \<Rightarrow> runtime \<Rightarrow> uint32 \<Rightarrow> done_chan \<Rightarrow> go_int \<Rightarrow> bool result option" where
  "reserveNSlow g r sz doneChan reserveN =
     (case blockChan g of
        None \<Rightarrow> Some (Panics ''sema.Group: concurrent Reserve calls while initializing group'', g, r)
      | Some blockChanVal \<Rightarrow>
          (case doneChan of
             nilDone \<Rightarrow> Some (Blocks, g, r)
           | readyAt None \<Rightarrow> Some (Blocks, g, r)
           | readyAt (Some t) \<Rightarrow>
               (case reserveNAbortWait g (r\<lparr>now := max (now r) t\<rparr>) blockChanVal reserveN of
                  None \<Rightarrow> None
                | Some (Returns u, g', r') \<Rightarrow> Some (Returns False, g', r')
                | Some (Panics msg, g', r') \<Rightarrow> Some (Panics msg, g', r')
                | Some (Blocks, g', r') \<Rightarrow> Some (Blocks, g', r'))))"

text \<open>
  \<^verbatim>\<open>func (g *Group) ReserveN(doneChan <-chan struct{}, n int) (reserved bool) {
      if n <= 0 { panic("sema.Group: invalid group reserve N value") }
      if doneChan != nil {
          select { case <-doneChan: return false
                   default: } }
      size := g.size.Load()
      if size == 0 {
          for ok := false; !ok; { _, ok = g.counterUpdate(g.counter.Load(), 0, n) }
          return true }
      if n > int(size) {
          if doneChan != nil { <-doneChan }
          return false }
      if g.tryReserve(size, n, false) { return true }
      return g.reserveNSlow(size, doneChan, n) }\<close>
\<close>

definition ReserveN :: "Group \<Rightarrow> runtime \<Rightarrow> done_chan \<Rightarrow> go_int \<Rightarrow> bool result option" where
  "ReserveN g r doneChan n =
     (if n \<le>s 0 then Some (Panics ''sema.Group: invalid group reserve N value'', g, r)
      else if doneChan \<noteq> nilDone \<and> done_ready doneChan r then Some (Returns False, g, r)
      else (let sz = size_g g in
            if sz = 0 then (case counterUpdateLoop g 0 n of (c, g') \<Rightarrow> Some (Returns True, g', r))
            else if (ucast sz :: go_int) <s n then
              (case doneChan of
                 nilDone \<Rightarrow> Some (Returns False, g, r)
               | readyAt None \<Rightarrow> Some (Blocks, g, r)
               | readyAt (Some t) \<Rightarrow> Some (Returns False, g, r\<lparr>now := max (now r) t\<rparr>))
            else (case tryReserve g sz n False of
                    (True, g') \<Rightarrow> Some (Returns True, g', r)
                  | (False, g') \<Rightarrow> reserveNSlow g' r sz doneChan n)))"

text \<open>\<open>func (g *Group) Reserve() { g.ReserveN(nil, 1) }\<close>: the result is dropped.\<close>

definition Reserve :: "Group \<Rightarrow> runtime \<Rightarrow> unit result option" where
  "Reserve g r =
     (case ReserveN g r nilDone 1 of
        None \<Rightarrow> None
      | Some (Returns b, g', r') \<Rightarrow> Some (Returns (), g', r')
      | Some (Panics msg, g', r') \<Rightarrow> Some (Panics msg, g', r')
      | Some (Blocks, g', r') \<Rightarrow> Some (Blocks, g', r'))"

subsection \<open>Freeing\<close>

text \<open>
  \<^verbatim>\<open>func (g *Group) FreeN(n int) {
      if n <= 0 { panic("sema.Group: invalid group free N value") }
      blockChan := g.blockChan.Load()
      var active int32
      for ok := false; !ok; {
          counter := g.counter.Load()
          counter, ok = g.counterUpdate(counter, 0, -n)
          _, active = counterParts(counter) }
      var pending uint32
      if blockChan != nil {
          counter := g.notifyFree(blockChan.(chan struct{}))
          pending, _ = counterParts(counter) }
      g.notifyWait(pending, active)
      if active < 0 { panic("sema.Group: negative group counter") } }\<close>
\<close>

definition FreeN :: "Group \<Rightarrow> runtime \<Rightarrow> go_int \<Rightarrow> unit result option" where
  "FreeN g r n =
     (if n \<le>s 0 then Some (Panics ''sema.Group: invalid group free N value'', g, r)
      else (let blockChan0 = blockChan g in
            case counterUpdateLoop g 0 (- n) of
              (c1, g1) \<Rightarrow>
                (let active = snd (counterParts c1) in
                 case (case blockChan0 of
                         None \<Rightarrow> Some 0
                       | Some blockChanVal \<Rightarrow>
                           map_option (\<lambda>c. fst (counterParts c)) (notifyFree g1 blockChanVal)) of
                   None \<Rightarrow> None
                 | Some pending \<Rightarrow>
                     (case notifyWait g1 r pending active of
                        (Returns u, g2, r2) \<Rightarrow>
                          if active <s 0
                          then Some (Panics ''sema.Group: negative group counter'', g2, r2)
                          else Some (Returns (), g2, r2)
                      | other \<Rightarrow> Some other))))"

definition Free :: "Group \<Rightarrow> runtime \<Rightarrow> unit result option" where
  "Free g r = FreeN g r 1"

subsection \<open>Waiting\<close>

text \<open>
  \<^verbatim>\<open>func (g *Group) initWaitChanSlow(waitChan any) chan struct{} {
      newWaitChan := make(chan struct{})
      if g.waitChan.CompareAndSwap(waitChan, newWaitChan) {
          pending, active := counterParts(g.counter.Load())
          if pending <= 0 && active <= 0 { return closedChan }
          return newWaitChan }
      loadedWaitChan := g.waitChan.Load()
      if loadedWaitChan == nilChan { return closedChan }
      return loadedWaitChan.(chan struct{}) }\<close>
  The type assertion on a nil interface is a run-time panic.
\<close>

definition initWaitChanSlow :: "Group \<Rightarrow> runtime \<Rightarrow> chan option \<Rightarrow> chan result" where
  "initWaitChanSlow g r waitChan0 =
     (case make_chan r of
        (newWaitChan, r1) \<Rightarrow>
          (case cas_waitChan g waitChan0 (Some newWaitChan) of
             (True, g1) \<Rightarrow>
               (case counterParts (counter g1) of
                  (pending, active) \<Rightarrow>
                    if pending \<le> 0 \<and> active \<le>s 0 then (Returns closedChan, g1, r1)
                    else (Returns newWaitChan, g1, r1))
           | (False, g1) \<Rightarrow>
               (case waitChan g1 of
                  None \<Rightarrow> (Panics ''interface conversion: interface is nil, not chan struct {}'', g1, r1)
                | Some w \<Rightarrow>
                    if w = nilChan then (Returns closedChan, g1, r1) else (Returns w, g1, r1))))"

text \<open>
  \<^verbatim>\<open>func (g *Group) initWaitChan() chan struct{} {
      waitChan := g.waitChan.Load()
      pending, active := counterParts(g.counter.Load())
      if pending <= 0 && active <= 0 { return closedChan }
      if waitChan != nil && waitChan != nilChan { return waitChan.(chan struct{}) }
      return g.initWaitChanSlow(waitChan) }\<close>
\<close>

definition initWaitChan :: "Group \<Rightarrow> runtime \<Rightarrow> chan result" where
  "initWaitChan g r =
     (let waitChan0 = waitChan g in
      case counterParts (counter g) of
        (pending, active) \<Rightarrow>
          if pending \<le> 0 \<and> active \<le>s 0 then (Returns closedChan, g, r)
          else (case waitChan0 of
                  None \<Rightarrow> initWaitChanSlow g r waitChan0
                | Some w \<Rightarrow>
                    if w \<noteq> nilChan then (Returns w, g, r) else initWaitChanSlow g r waitChan0))"

definition WaitChan :: "Group \<Rightarrow> runtime \<Rightarrow> chan result" where
  "WaitChan g r = initWaitChan g r"

text \<open>
  \<open>func (g *Group) Wait() { waitChan := g.initWaitChan(); <-waitChan }\<close>: the receive
  completes at once on a closed channel and parks otherwise.
\<close>

definition Wait :: "Group \<Rightarrow> runtime \<Rightarrow> unit result" where
  "Wait g r =
     (case initWaitChan g r of
        (Returns c, g', r') \<Rightarrow> if recv_ready c r' then (Returns (), g', r') else (Blocks, g', r')
      | (Panics msg, g', r') \<Rightarrow> (Panics msg, g', r')
      | (Blocks, g', r') \<Rightarrow> (Blocks, g', r'))"

section \<open>Sequential programs over a Group\<close>

text \<open>
  The tests of the repository are straight-line programs of calls on one \<open>Group\<close>.
  \<open>step\<close> runs one call; \<open>run\<close> runs a list of calls in order and stops at the first
  call that does not return, because the goroutine has panicked or is parked. It yields
  the outcome of every call that was started.
\<close>

datatype op =
    OpReserve
  | OpReserveN done_chan go_int
  | OpTryReserveN go_int
  | OpFree
  | OpFreeN go_int
  | OpWait
  | OpWaitChan
  | OpSetSize go_int

datatype val = VUnit | VBool bool | VChan chan

fun lift_outcome :: "('a \<Rightarrow> val) \<Rightarrow> 'a outcome \<Rightarrow> val outcome" where
  "lift_outcome f (Returns x) = Returns (f x)"
| "lift_outcome f (Panics msg) = Panics msg"
| "lift_outcome f Blocks = Blocks"

definition lift_result :: "('a \<Rightarrow> val) \<Rightarrow> 'a result \<Rightarrow> val result" where
  "lift_result f res = (case res of (out, g, r) \<Rightarrow> (lift_outcome f out, g, r))"

fun step :: "op \<Rightarrow> Group \<Rightarrow> runtime \<Rightarrow> val result option" where
  "step OpReserve g r = map_option (lift_result (\<lambda>u. VUnit)) (Reserve g r)"
| "step (OpReserveN d n) g r = map_option (lift_result VBool) (ReserveN g r d n)"
| "step (OpTryReserveN n) g r =
     (case TryReserveN g n of (out, g') \<Rightarrow> Some (lift_outcome VBool out, g', r))"
| "step OpFree g r = map_option (lift_result (\<lambda>u. VUnit)) (Free g r)"
| "step (OpFreeN n) g r = map_option (lift_result (\<lambda>u. VUnit)) (FreeN g r n)"
| "step OpWait g r = Some (lift_result (\<lambda>u. VUnit) (Wait g r))"
| "step OpWaitChan g r = Some (lift_result VChan (WaitChan g r))"
| "step (OpSetSize n) g r = Some (lift_result (\<lambda>u. VUnit) (SetSize g r n))"

fun run :: "op list \<Rightarrow> Group \<Rightarrow> runtime \<Rightarrow> (val outcome list \<times> Group \<times> runtime) option" where
  "run [] g r = Some ([], g, r)"
| "run (c # cs) g r =
     (case step c g r of
        None \<Rightarrow> None
      | Some (Returns v, g', r') \<Rightarrow>
          (case run cs g' r' of
             None \<Rightarrow> None
           | Some (outs, g'', r'') \<Rightarrow> Some (Returns v # outs, g'', r''))
      | Some (out, g', r') \<Rightarrow> Some ([out], g', r'))"

section \<open>Vocabulary of the claims\<close>

text \<open>The two halves of the counter of a \<open>Group\<close>.\<close>

definition pending_of :: "Group \<Rightarrow> uint32" where
  "pending_of g = fst (counterParts (counter g))"

definition active_of :: "Group \<Rightarrow> int32" where
  "active_of g = snd (counterParts (counter g))"

text \<open>
  The wait-channel slot as the operations leave it: empty, the nil sentinel, or a channel
  that was made and is still open; and every closed channel is one that was made.
\<close>

definition wait_ok :: "Group \<Rightarrow> runtime \<Rightarrow> bool" where
  "wait_ok g r =
     ((case waitChan g of
         None \<Rightarrow> True
       | Some nilChan \<Rightarrow> True
       | Some closedChan \<Rightarrow> False
       | Some (Chan k) \<Rightarrow> k \<notin> closed r \<and> k < next_chan r) \<and>
      (\<forall>k \<in> closed r. k < next_chan r))"






text \<open>
  A program on a \<open>Group\<close> without a limit that keeps the active half within the signed
  32-bit range at every call and never sets a positive size.
\<close>

fun op_fits :: "Group \<Rightarrow> op \<Rightarrow> bool" where
  "op_fits g OpReserve = (sint (active_of g) + 1 \<le> 2 ^ 31 - 1)"
| "op_fits g (OpReserveN d n) = (sint (active_of g) + sint n \<le> 2 ^ 31 - 1)"
| "op_fits g (OpTryReserveN n) = (sint (active_of g) + sint n \<le> 2 ^ 31 - 1)"
| "op_fits g OpFree = (- (2 ^ 31) \<le> sint (active_of g) - 1)"
| "op_fits g (OpFreeN n) = (- (2 ^ 31) \<le> sint (active_of g) - sint n)"
| "op_fits g (OpSetSize n) = (n \<le>s 0)"
| "op_fits g c = True"

fun in_range :: "op list \<Rightarrow> Group \<Rightarrow> runtime \<Rightarrow> bool" where
  "in_range [] g r = True"
| "in_range (c # cs) g r =
     (op_fits g c \<and>
      (case step c g r of
         Some (Returns v, g', r') \<Rightarrow> in_range cs g' r'
       | _ \<Rightarrow> True))"

definition unlimited :: "Group \<Rightarrow> bool" where
  "unlimited g = (size_g g = 0 \<and> pending_of g = 0)"

section \<open>The packed counter: properties\<close>

lemma counterParts_pack:
  "counterParts (push_bit 32 (ucast (p :: uint32) :: uint64) OR ucast (a :: int32)) = (p, a)"
proof -
  have "ucast (drop_bit 32 (push_bit 32 (ucast p :: uint64) OR ucast a)) = p"
    by (rule bit_word_eqI) (auto simp: bit_simps dest: bit_imp_le_length)
  moreover have "(ucast (push_bit 32 (ucast p :: uint64) OR ucast a) :: int32) = a"
    by (rule bit_word_eqI) (auto simp: bit_simps)
  ultimately show ?thesis by (simp add: counterParts_def)
qed

lemma counterUpdate_cas_ok:
  "counterUpdate g (counter g) dp da =
     (fst (counterUpdate g (counter g) dp da), True,
      g\<lparr>counter := fst (counterUpdate g (counter g) dp da)\<rparr>)"
  by (simp add: counterUpdate_def Let_def split: prod.splits)

lemma counterUpdateLoop_eq:
  "counterUpdateLoop g dp da =
     (fst (counterUpdate g (counter g) dp da),
      g\<lparr>counter := fst (counterUpdate g (counter g) dp da)\<rparr>)"
  by (subst counterUpdateLoop.simps, subst counterUpdate_cas_ok) simp

subsection \<open>Word arithmetic read as integers\<close>

lemma sint_cast32: "sint (ucast (d :: go_int) :: int32) = signed_take_bit 31 (sint d)"
  by (simp add: sint_uint signed_take_bit_take_bit take_bit_signed_take_bit unsigned_ucast_eq)

lemma stb_sint32: "signed_take_bit 31 (sint (a :: int32)) = sint a"
  using sint_greater_eq [of a] sint_less [of a]
  by (intro signed_take_bit_int_eq_self) simp_all

lemma sint_add32:
  "sint ((a :: int32) + ucast (d :: go_int)) = signed_take_bit 31 (sint a + sint d)"
proof -
  have "sint (a + ucast d) = signed_take_bit 31 (sint a + signed_take_bit 31 (sint d))"
    by (simp add: sint_word_ariths sint_cast32)
  also have "\<dots> = signed_take_bit 31 (signed_take_bit 31 (sint a) + signed_take_bit 31 (sint d))"
    by (simp only: stb_sint32)
  also have "\<dots> = signed_take_bit 31 (sint a + sint d)"
    by (rule signed_take_bit_add)
  finally show ?thesis .
qed

lemma uint_cast32: "uint (ucast (d :: go_int) :: uint32) = sint d mod 2 ^ 32"
proof -
  have "uint (ucast d :: uint32) = take_bit 32 (sint d)"
    by (simp add: unsigned_ucast_eq sint_uint take_bit_signed_take_bit)
  then show ?thesis by (simp add: take_bit_eq_mod)
qed

lemma mod_add_mid: "(a + b mod m + c) mod m = (a + b + c) mod (m :: int)"
proof -
  have "(a + b mod m + c) mod m = (b mod m + (a + c)) mod m"
    by (simp add: ac_simps)
  also have "\<dots> = (b + (a + c)) mod m"
    by (rule mod_add_left_eq)
  finally show ?thesis by (simp add: ac_simps)
qed

lemma uint_pending_add:
  "uint ((p :: uint32) + ucast (d :: go_int) + k) = (uint p + sint d + uint k) mod 2 ^ 32"
proof -
  have "uint (p + ucast d + k) = (uint p + sint d mod 2 ^ 32 + uint k) mod 2 ^ 32"
    by (simp only: uint_word_ariths uint_cast32 mod_simps) simp
  also have "\<dots> = (uint p + sint d + uint k) mod 2 ^ 32"
    using mod_add_mid [of "uint p" "sint d" "2 ^ 32" "uint k"] by simp
  finally show ?thesis .
qed

lemma uint_pending_sub:
  "uint ((p :: uint32) + ucast (d :: go_int) - 1) = (uint p + sint d - 1) mod 2 ^ 32"
proof -
  have "uint (p + ucast d - 1) = (uint p + sint d mod 2 ^ 32 - 1) mod 2 ^ 32"
    by (simp only: uint_word_ariths uint_cast32 mod_simps) simp
  also have "\<dots> = (uint p + sint d - 1) mod 2 ^ 32"
    using mod_add_mid [of "uint p" "sint d" "2 ^ 32" "- 1"] by simp
  finally show ?thesis .
qed

lemma pack_add:
  "push_bit 32 (ucast (p :: uint32) :: uint64) OR ucast (a :: int32) = push_bit 32 (ucast p) + ucast a"
  by (rule disjunctive_add [symmetric]) (auto simp: bit_simps dest: bit_imp_le_length)

lemma uint_up32: "uint (ucast (a :: 32 word) :: uint64) = uint a"
  by (rule uint_up_ucast) (simp add: is_up)

lemma uint_pack:
  "uint (push_bit 32 (ucast (p :: uint32) :: uint64) OR ucast (a :: int32)) = uint p * 2 ^ 32 + uint a"
proof -
  have bp: "0 \<le> uint p" "uint p < 2 ^ 32" and ba: "0 \<le> uint a" "uint a < 2 ^ 32"
    using uint_lt2p [of p] uint_lt2p [of a] by simp_all
  have 1: "uint (push_bit 32 (ucast p :: uint64)) = uint p * 2 ^ 32"
  proof -
    have "uint (push_bit 32 (ucast p :: uint64)) = take_bit 64 (uint p * 2 ^ 32)"
      by (simp add: push_bit_eq_mult uint_word_ariths uint_up32 take_bit_eq_mod)
    also have "\<dots> = uint p * 2 ^ 32"
      using bp by (intro take_bit_int_eq_self) simp_all
    finally show ?thesis .
  qed
  have "uint (push_bit 32 (ucast p :: uint64) + ucast a) = take_bit 64 (uint p * 2 ^ 32 + uint a)"
    by (simp add: uint_word_ariths 1 uint_up32 take_bit_eq_mod)
  also have "\<dots> = uint p * 2 ^ 32 + uint a"
    using bp ba by (intro take_bit_int_eq_self) simp_all
  finally show ?thesis by (simp only: pack_add)
qed

subsection \<open>Casts and the retry loops\<close>

lemma sint_up32u: "sint (ucast (p :: uint32) :: go_int) = uint p"
proof -
  have "sint (ucast p :: go_int) = signed_take_bit 63 (uint p)"
    by (simp add: sint_uint uint_up32)
  also have "\<dots> = uint p"
  proof (rule signed_take_bit_int_eq_self)
    show "- (2 ^ 63) \<le> uint p"
      using uint_ge_0 [of p] by (simp add: order_trans [of _ 0])
    show "uint p < 2 ^ 63"
      using uint_lt2p [of p] by simp
  qed
  finally show ?thesis .
qed

lemma sint_up32s: "sint (scast (a :: int32) :: go_int) = sint a"
  by (rule sint_up_scast) (simp add: is_up)

lemma pending_pos_iff: "0 <s (ucast (p :: uint32) :: go_int) \<longleftrightarrow> p \<noteq> 0"
  by (simp add: word_sless_alt sint_up32u word_neq_0_conv word_less_def)

lemma sint_nonneg_uint: "0 \<le> sint (n :: go_int) \<Longrightarrow> sint n = uint n"
proof -
  assume pos: "0 \<le> sint n"
  have "uint n = take_bit 64 (sint n)"
    by (simp add: uint_sint)
  also have "\<dots> = sint n"
    using pos sint_lt [of n] by (intro take_bit_int_eq_self) simp_all
  finally show ?thesis by simp
qed

lemma fits_u32: "0 <s (n :: go_int) \<Longrightarrow> (ucast (ucast n :: uint32) :: go_int) = n \<longleftrightarrow> sint n < 2 ^ 32"
proof -
  assume "0 <s n"
  then have pos: "0 \<le> sint n" by (simp add: word_sless_alt)
  have "(ucast (ucast n :: uint32) :: go_int) = n \<longleftrightarrow> take_bit 32 (uint n) = uint n"
    by (simp only: word_eq_iff_unsigned [where ?'a = int] uint_up32 unsigned_ucast_eq) (simp add: unsigned_take_bit_eq)
  also have "\<dots> \<longleftrightarrow> uint n < 2 ^ 32"
    by (simp add: take_bit_int_eq_self_iff)
  finally show ?thesis using sint_nonneg_uint [OF pos] by simp
qed

lemma tryReserve_eq:
  "tryReserve g sz n tryCall =
     (case counterParts (counter g) of
        (pending, active) \<Rightarrow>
          if pending = 0 \<and> (scast active + n) \<le>s (ucast sz :: go_int)
          then (True, g\<lparr>counter := fst (counterUpdate g (counter g) 0 n)\<rparr>)
          else if \<not> tryCall
          then (False, g\<lparr>counter := fst (counterUpdate g (counter g) n 0)\<rparr>)
          else (False, g))"
  by (subst tryReserve.simps, subst (1 2) counterUpdate_cas_ok) (simp split: prod.splits)

lemma notifyFree_idle:
  "fst (counterParts (counter g)) = 0 \<Longrightarrow> notifyFree g bc = Some (counter g)"
  by (simp add: notifyFree_def notifyFree_loop.simps pending_pos_iff)

section \<open>Claims\<close>

subsection \<open>C2: the halves of the word that counterUpdate computes\<close>

text \<open>
  C2. For every old counter word and every pair of deltas, the word that
  \<open>counterUpdate\<close> computes has, as its low half, the old active count plus the active
  delta in signed 32-bit wrap-around arithmetic, and, as its high half, the old pending
  count plus the pending delta in 32-bit wrap-around arithmetic, plus one exactly when the
  active delta is positive and the new active count is below the old one, minus one
  exactly when the active delta is negative and the new active count is above the old
  one (signed comparisons). The word packs the new pending count in its upper 32 bits and
  the new active count, read unsigned, in its lower 32 bits. The swap commits exactly when
  the \<open>Group\<close> still holds the old word.
\<close>

theorem counterUpdate_halves:
  "(case counterParts old of (oldPending, oldActive) \<Rightarrow>
    case counterUpdate g old dp da of (newCounter, ok, g') \<Rightarrow>
    case counterParts newCounter of (newPending, newActive) \<Rightarrow>
      newActive = oldActive + ucast da \<and>
      sint newActive = signed_take_bit 31 (sint oldActive + sint da) \<and>
      uint newPending =
        (uint oldPending + sint dp +
           (if 0 < sint da \<and> sint newActive < sint oldActive then 1
            else if sint da < 0 \<and> sint oldActive < sint newActive then - 1
            else 0)) mod 2 ^ 32 \<and>
      uint newCounter = uint newPending * 2 ^ 32 + uint newActive \<and>
      ok = (counter g = old) \<and>
      g' = (if ok then g\<lparr>counter := newCounter\<rparr> else g))"
  apply (simp add: counterUpdate_def Let_def split: prod.splits)
  apply (intro allI impI conjI)
  apply (auto simp: counterParts_pack sint_add32 uint_pack word_sless_alt
      uint_pending_add [of _ _ 1, simplified] uint_pending_add [of _ _ 0, simplified]
      uint_pending_sub [simplified])
  done

text \<open>
  The carry at work: from \<open>active = 2\<^sup>3\<^sup>1 - 1\<close>, adding one wraps the low half and
  raises the high half.
\<close>

theorem counterUpdate_halves_witness:
  "counterUpdate (zero_Group\<lparr>counter := 2147483647\<rparr>) 2147483647 0 1 =
     (6442450944, True, zero_Group\<lparr>counter := 6442450944\<rparr>) \<and>
   counterParts 6442450944 = (1, 2147483648)"
  using counterUpdate_halves
    [where old = 2147483647 and g = "zero_Group\<lparr>counter := 2147483647\<rparr>" and dp = 0 and da = 1]
  by (simp add: counterUpdate_def counterParts_def zero_Group_def Let_def word_sless_alt)

subsection \<open>C4: the program of TestGroupTryReserveN\<close>

lemma NewGroup_2:
  "NewGroup r 2 =
     (Returns (), zero_Group\<lparr>size_g := 2, blockChan := Some (Chan (next_chan r))\<rparr>,
      r\<lparr>next_chan := Suc (next_chan r)\<rparr>)"
  by (simp add: NewGroup_def setSize_def make_chan_def Let_def word_sless_alt)

text \<open>
  C4. On a fresh \<open>Group\<close> of capacity 2, the program
  \<open>ReserveN(d, 1); TryReserveN(1); TryReserveN(1); FreeN(2); TryReserveN(1); ReserveN(d, 1);
  TryReserveN(1)\<close> runs to its end: every call returns, none panics or parks, both
  \<open>ReserveN\<close> calls return true and the four \<open>TryReserveN\<close> calls return
  true, false, true, false. This holds for a cancellation channel \<open>d\<close> that never becomes
  ready and for the nil channel that the test itself passes. Two units are active at the
  end.
\<close>

theorem TestGroupTryReserveN:
  "(case NewGroup r 2 of
      (out, g, r') \<Rightarrow>
        out = Returns () \<and>
        run [OpReserveN (readyAt None) 1, OpTryReserveN 1, OpTryReserveN 1, OpFreeN 2,
             OpTryReserveN 1, OpReserveN (readyAt None) 1, OpTryReserveN 1] g r' =
          Some ([Returns (VBool True), Returns (VBool True), Returns (VBool False),
                 Returns VUnit, Returns (VBool True), Returns (VBool True),
                 Returns (VBool False)], g\<lparr>counter := 2\<rparr>, r') \<and>
        run [OpReserveN nilDone 1, OpTryReserveN 1, OpTryReserveN 1, OpFreeN 2,
             OpTryReserveN 1, OpReserveN nilDone 1, OpTryReserveN 1] g r' =
          Some ([Returns (VBool True), Returns (VBool True), Returns (VBool False),
                 Returns VUnit, Returns (VBool True), Returns (VBool True),
                 Returns (VBool False)], g\<lparr>counter := 2\<rparr>, r'))"
  apply (simp add: NewGroup_2 zero_Group_def)
  apply (simp add: ReserveN_def TryReserveN_def FreeN_def tryReserve_eq counterUpdateLoop_eq
     notifyFree_idle notifyWait_def done_ready_def lift_result_def
     counterUpdate_def counterParts_def Let_def word_sless_alt word_sle_eq)
  done

theorem TestGroupTryReserveN_witness:
  "run [OpReserveN (readyAt None) 1, OpTryReserveN 1, OpTryReserveN 1, OpFreeN 2,
        OpTryReserveN 1, OpReserveN (readyAt None) 1, OpTryReserveN 1]
       \<lparr>waitChan = None, blockChan = Some (Chan 0), counter = 0, size_g = 2\<rparr>
       \<lparr>next_chan = 1, closed = {}, now = 0\<rparr> =
     Some ([Returns (VBool True), Returns (VBool True), Returns (VBool False),
            Returns VUnit, Returns (VBool True), Returns (VBool True),
            Returns (VBool False)],
           \<lparr>waitChan = None, blockChan = Some (Chan 0), counter = 2, size_g = 2\<rparr>,
           \<lparr>next_chan = 1, closed = {}, now = 0\<rparr>)"
  using TestGroupTryReserveN [of init_runtime]
  by (simp add: NewGroup_2 zero_Group_def init_runtime_def)

subsection \<open>C7: the zero value and NewGroup of a size that is not positive\<close>

text \<open>
  C7. \<open>NewGroup(k)\<close> for \<open>k \<le> 0\<close> returns the zero \<open>Group\<close> and makes no channel:
  size 0, counter 0, no block channel, no wait channel. The two values are equal, so every
  call and every program behaves the same on both; the zero \<open>Group\<close> is unlimited
  (\<open>Size() = 0\<close>) with \<open>ActiveCount() = 0\<close> and \<open>PendingCount() = 0\<close>.
\<close>

theorem NewGroup_nonpositive:
  "k \<le>s 0 \<Longrightarrow>
     NewGroup r k = (Returns (), zero_Group, r) \<and>
     waitChan zero_Group = None \<and> blockChan zero_Group = None \<and>
     counter zero_Group = 0 \<and> size_g zero_Group = 0 \<and>
     Size zero_Group = 0 \<and> ActiveCount zero_Group = 0 \<and> PendingCount zero_Group = 0 \<and>
     (case NewGroup r k of
        (out, g, r') \<Rightarrow>
          (\<forall>c. step c g r' = step c zero_Group r) \<and> (\<forall>cs. run cs g r' = run cs zero_Group r))"
  by (auto simp: NewGroup_def setSize_def word_sle_eq word_sless_alt zero_Group_def
      Size_def ActiveCount_def PendingCount_def counterParts_def)

theorem NewGroup_nonpositive_witness:
  "(- 3 :: go_int) \<le>s 0 \<and>
   NewGroup init_runtime (- 3) = (Returns (), zero_Group, init_runtime) \<and>
   NewGroup init_runtime 0 = (Returns (), zero_Group, init_runtime)"
  using NewGroup_nonpositive [of "- 3" init_runtime] NewGroup_nonpositive [of 0 init_runtime]
  by (simp add: word_sle_eq)

subsection \<open>C9: waiting on an empty Group\<close>

text \<open>
  C9. When pending and active are both zero, \<open>WaitChan()\<close> returns the package-level
  closed channel and \<open>Wait()\<close> returns at once; neither changes the \<open>Group\<close> (its
  wait-channel slot included) nor makes or closes a channel.
\<close>

theorem WaitChan_zero:
  "counterParts (counter g) = (0, 0) \<Longrightarrow>
     WaitChan g r = (Returns closedChan, g, r) \<and> Wait g r = (Returns (), g, r)"
  by (simp add: WaitChan_def Wait_def initWaitChan_def recv_ready_def)

theorem WaitChan_zero_witness:
  "counterParts (counter zero_Group) = (0, 0) \<and>
   WaitChan zero_Group init_runtime = (Returns closedChan, zero_Group, init_runtime) \<and>
   Wait zero_Group init_runtime = (Returns (), zero_Group, init_runtime)"
  using WaitChan_zero [of zero_Group init_runtime]
  by (simp add: zero_Group_def counterParts_def)

subsection \<open>C8: SetSize\<close>

lemma fits_u32_back:
  "0 <s n \<Longrightarrow> sint n < 4294967296 \<Longrightarrow> (ucast (ucast n :: uint32) :: go_int) = n"
  using fits_u32 [of n] by simp

lemma setSize_fits:
  assumes "0 <s n" "sint n < 2 ^ 32"
  shows "setSize g r n =
           (Returns (), g\<lparr>size_g := ucast n, blockChan := Some (Chan (next_chan r))\<rparr>,
            r\<lparr>next_chan := Suc (next_chan r)\<rparr>)"
  using assms fits_u32 [of n]
  by (auto simp: setSize_def make_chan_def Let_def word_sless_alt)

lemma setSize_too_big:
  assumes "2 ^ 32 \<le> sint n"
  shows "setSize g r n = (Panics ''sema.Group: incorrect group size'', g, r)"
proof -
  from assms have pos: "0 <s n" by (simp add: word_sless_alt)
  with assms fits_u32 [of n] show ?thesis
    by (auto simp: setSize_def make_chan_def Let_def word_sless_alt)
qed

lemma setSize_nonpositive:
  "n \<le>s 0 \<Longrightarrow> setSize g r n = (Returns (), g, r)"
  by (auto simp: setSize_def word_sle_eq word_sless_alt)

text \<open>
  C8. Take a \<open>Group\<close> that has not been used or configured: counter 0, no block channel,
  and so size 0 (\<open>setSize\<close> stores the size and the channel together).
  \<^item> \<open>SetSize(n)\<close> with \<open>n \<le> 0\<close> returns and changes nothing: the \<open>Group\<close> stays
    unlimited, no channel is made.
  \<^item> \<open>SetSize(n)\<close> with \<open>0 < n < 2\<^sup>3\<^sup>2\<close> returns, \<open>Size()\<close> is \<open>n\<close> and a fresh
    block channel is installed; any further \<open>SetSize\<close> then panics with
    \<open>sema.Group: group already initialized\<close>.
  \<^item> \<open>SetSize(n)\<close> with \<open>n \<ge> 2\<^sup>3\<^sup>2\<close> panics (\<open>sema.Group: incorrect group size\<close>)
    and changes nothing.
  On any \<open>Group\<close> whose counter is not 0, \<open>SetSize\<close> panics.
\<close>

theorem SetSize_cases:
  assumes "counter g = 0" and "blockChan g = None" and "size_g g = 0"
  shows "(n \<le>s 0 \<longrightarrow> SetSize g r n = (Returns (), g, r) \<and> Size g = 0) \<and>
         (0 <s n \<and> sint n < 2 ^ 32 \<longrightarrow>
            (case SetSize g r n of
               (out, g', r') \<Rightarrow>
                 out = Returns () \<and> Size g' = n \<and> blockChan g' = Some (Chan (next_chan r)) \<and>
                 g' = g\<lparr>size_g := ucast n, blockChan := Some (Chan (next_chan r))\<rparr> \<and>
                 r' = r\<lparr>next_chan := Suc (next_chan r)\<rparr> \<and>
                 (\<forall>m. SetSize g' r' m =
                        (Panics ''sema.Group: group already initialized'', g', r')))) \<and>
         (2 ^ 32 \<le> sint n \<longrightarrow>
            SetSize g r n = (Panics ''sema.Group: incorrect group size'', g, r)) \<and>
         (\<forall>g0. counter g0 \<noteq> 0 \<longrightarrow>
            SetSize g0 r n =
              (Panics ''sema.Group: concurrent Reserve calls while initializing group'', g0, r))"
  using assms
  by (auto simp: SetSize_def setSize_fits setSize_too_big setSize_nonpositive fits_u32_back Size_def)

theorem SetSize_cases_witness:
  "counter zero_Group = 0 \<and> blockChan zero_Group = None \<and> size_g zero_Group = 0 \<and>
   SetSize zero_Group init_runtime 10 =
     (Returns (), \<lparr>waitChan = None, blockChan = Some (Chan 0), counter = 0, size_g = 10\<rparr>,
      \<lparr>next_chan = 1, closed = {}, now = 0\<rparr>) \<and>
   SetSize \<lparr>waitChan = None, blockChan = Some (Chan 0), counter = 0, size_g = 10\<rparr>
       \<lparr>next_chan = 1, closed = {}, now = 0\<rparr> 5 =
     (Panics ''sema.Group: group already initialized'',
      \<lparr>waitChan = None, blockChan = Some (Chan 0), counter = 0, size_g = 10\<rparr>,
      \<lparr>next_chan = 1, closed = {}, now = 0\<rparr>) \<and>
   SetSize zero_Group init_runtime (- 1) = (Returns (), zero_Group, init_runtime) \<and>
   SetSize zero_Group init_runtime 4294967296 =
     (Panics ''sema.Group: incorrect group size'', zero_Group, init_runtime) \<and>
   SetSize (zero_Group\<lparr>counter := 1\<rparr>) init_runtime 10 =
     (Panics ''sema.Group: concurrent Reserve calls while initializing group'',
      zero_Group\<lparr>counter := 1\<rparr>, init_runtime)"
  using SetSize_cases [of zero_Group 10 init_runtime]
    SetSize_cases [of zero_Group "- 1" init_runtime]
    SetSize_cases [of zero_Group 4294967296 init_runtime]
  by (simp add: SetSize_def setSize_def make_chan_def Let_def zero_Group_def init_runtime_def word_sle_eq word_sless_alt)

subsection \<open>Committing a weight and releasing it, on the halves\<close>

lemma counterUpdate_parts:
  "counterParts (fst (counterUpdate g old dp da)) =
     (case counterParts old of
        (oldPending, oldActive) \<Rightarrow>
          (oldPending + ucast dp +
             (if 0 <s da \<and> oldActive + ucast da <s oldActive then 1
              else if da <s 0 \<and> oldActive <s oldActive + ucast da then - 1
              else 0),
           oldActive + ucast da))"
  by (simp add: counterUpdate_def Let_def counterParts_pack split: prod.splits)

lemma sint_neg64: "0 < sint (n :: go_int) \<Longrightarrow> sint (- n) = - sint n"
proof -
  assume pos: "0 < sint n"
  have "sint (- n) = signed_take_bit 63 (- sint n)"
    by (simp add: sint_word_ariths)
  also have "\<dots> = - sint n"
    using pos sint_lt [of n] by (intro signed_take_bit_int_eq_self) simp_all
  finally show ?thesis .
qed

lemma active_add:
  assumes "0 < sint n" "sint (a :: int32) + sint (n :: go_int) \<le> 2 ^ 31 - 1"
  shows "sint (a + ucast n) = sint a + sint n"
proof -
  have "- (2 ^ 31) \<le> sint a" using sint_ge [of a] by simp
  with assms show ?thesis
    by (simp only: sint_add32) (intro signed_take_bit_int_eq_self; simp)
qed

lemma active_sub:
  assumes "0 < sint n" "- (2 ^ 31) \<le> sint (a :: int32) - sint (n :: go_int)"
  shows "sint (a + ucast (- n)) = sint a - sint n"
proof -
  have "sint a < 2 ^ 31" using sint_lt [of a] by simp
  with assms show ?thesis
    by (simp only: sint_add32 sint_neg64) (simp, intro signed_take_bit_int_eq_self; simp)
qed


lemma commit_parts:
  assumes "counterParts (counter g) = (p, a)" "0 < sint n" "sint a + sint n \<le> 2 ^ 31 - 1"
  shows "counterParts (fst (counterUpdate g (counter g) 0 n)) = (p, a + ucast n)"
  using assms active_add [of n a]
  by (simp add: counterUpdate_parts word_sless_alt)

lemma free_parts:
  assumes "counterParts (counter g) = (p, a)" "0 < sint n" "- (2 ^ 31) \<le> sint a - sint n"
  shows "counterParts (fst (counterUpdate g (counter g) 0 (- n))) = (p, a + ucast (- n))"
  using assms active_sub [of n a] sint_neg64 [of n]
  by (simp add: counterUpdate_parts word_sless_alt)

lemma sint_sum64:
  assumes "0 < sint (n :: go_int)" "sint n \<le> 2 ^ 32"
  shows "sint (scast (a :: int32) + n :: go_int) = sint a + sint n"
proof -
  have "sint (scast a + n :: go_int) = signed_take_bit 63 (sint a + sint n)"
    by (simp add: sint_word_ariths sint_up32s)
  also have "\<dots> = sint a + sint n"
    using assms sint_lt [of a] sint_ge [of a]
    by (intro signed_take_bit_int_eq_self) simp_all
  finally show ?thesis .
qed

lemma TryReserveN_unlimited:
  "0 <s n \<Longrightarrow> size_g g = 0 \<Longrightarrow>
     TryReserveN g n = (Returns True, g\<lparr>counter := fst (counterUpdate g (counter g) 0 n)\<rparr>)"
  by (simp add: TryReserveN_def counterUpdateLoop_eq word_sle_eq word_sless_alt)

lemma TryReserveN_limited:
  assumes "0 <s n" "size_g g \<noteq> 0" "counterParts (counter g) = (pending, active)"
  shows "TryReserveN g n =
           (if sint n \<le> uint (size_g g) \<and> pending = 0 \<and> sint active + sint n \<le> uint (size_g g)
            then (Returns True, g\<lparr>counter := fst (counterUpdate g (counter g) 0 n)\<rparr>)
            else (Returns False, g))"
proof (cases "sint n \<le> uint (size_g g)")
  case False
  with assms show ?thesis
    by (simp add: TryReserveN_def word_sle_eq word_sless_alt sint_up32u)
next
  case True
  have "uint (size_g g) < 2 ^ 32" using uint_lt2p [of "size_g g"] by simp
  with True have le: "sint n \<le> 2 ^ 32" by simp
  from assms(1) have pos: "0 < sint n" by (simp add: word_sless_alt)
  show ?thesis
    using assms True sint_sum64 [OF pos le, of active]
    by (simp add: TryReserveN_def tryReserve_eq word_sle_eq word_sless_alt sint_up32u)
qed



subsection \<open>C1: a weight above the capacity\<close>

text \<open>
  C1, as the specification states it, lets \<open>ReserveN\<close> park forever when the weight
  exceeds the capacity and no cancellation channel is given. The code guards the receive
  with \<open>if doneChan != nil\<close> and falls through to \<open>return false\<close>: on a \<open>Group\<close>
  of capacity 2, \<open>ReserveN(nil, 3)\<close> returns false at once.
\<close>

theorem ReserveN_oversized_counterexample:
  "ReserveN \<lparr>waitChan = None, blockChan = Some (Chan 0), counter = 0, size_g = 2\<rparr>
       \<lparr>next_chan = 1, closed = {}, now = 0\<rparr> nilDone 3 =
     Some (Returns False, \<lparr>waitChan = None, blockChan = Some (Chan 0), counter = 0, size_g = 2\<rparr>,
           \<lparr>next_chan = 1, closed = {}, now = 0\<rparr>)"
  by (simp add: ReserveN_def done_ready_def Let_def word_sle_eq word_sless_alt)

text \<open>
  C1, amended. For every \<open>Group\<close> with capacity \<open>C > 0\<close> and every weight \<open>n > C\<close>,
  \<open>ReserveN(doneChan, n)\<close> leaves the \<open>Group\<close> as it is (nothing is committed, pending
  and active keep their values). With a nil \<open>doneChan\<close> it returns false at once. With a
  channel that never gets ready it parks forever. With a channel that is ready from time
  \<open>t\<close> on it returns false, and not before \<open>t\<close>: at once when the channel is ready
  already, at \<open>t\<close> otherwise.
\<close>

theorem ReserveN_oversized:
  assumes "size_g g \<noteq> 0" and "(ucast (size_g g) :: go_int) <s n"
  shows "ReserveN g r nilDone n = Some (Returns False, g, r) \<and>
         ReserveN g r (readyAt None) n = Some (Blocks, g, r) \<and>
         ReserveN g r (readyAt (Some t)) n = Some (Returns False, g, r\<lparr>now := max (now r) t\<rparr>) \<and>
         t \<le> now (r\<lparr>now := max (now r) t\<rparr>)"
proof -
  have "0 \<le> sint (ucast (size_g g) :: go_int)" by (simp add: sint_up32u)
  with assms(2) have pos: "\<not> n \<le>s 0" by (simp add: word_sle_eq word_sless_alt)
  have same: "t \<le> now r \<Longrightarrow> r\<lparr>now := max (now r) t\<rparr> = r" by (simp add: max_def)
  show ?thesis
    using assms pos same
    by (auto simp: ReserveN_def done_ready_def Let_def)
qed

theorem ReserveN_oversized_witness:
  "size_g \<lparr>waitChan = None, blockChan = Some (Chan 0), counter = 0, size_g = 2\<rparr> \<noteq> 0 \<and>
   (ucast (2 :: uint32) :: go_int) <s 3 \<and>
   ReserveN \<lparr>waitChan = None, blockChan = Some (Chan 0), counter = 0, size_g = 2\<rparr>
       \<lparr>next_chan = 1, closed = {}, now = 0\<rparr> (readyAt (Some 7)) 3 =
     Some (Returns False, \<lparr>waitChan = None, blockChan = Some (Chan 0), counter = 0, size_g = 2\<rparr>,
           \<lparr>next_chan = 1, closed = {}, now = 7\<rparr>) \<and>
   ReserveN \<lparr>waitChan = None, blockChan = Some (Chan 0), counter = 0, size_g = 2\<rparr>
       \<lparr>next_chan = 1, closed = {}, now = 0\<rparr> (readyAt None) 3 =
     Some (Blocks, \<lparr>waitChan = None, blockChan = Some (Chan 0), counter = 0, size_g = 2\<rparr>,
           \<lparr>next_chan = 1, closed = {}, now = 0\<rparr>)"
  using ReserveN_oversized [of "\<lparr>waitChan = None, blockChan = Some (Chan 0), counter = 0, size_g = 2\<rparr>" 3
      "\<lparr>next_chan = 1, closed = {}, now = 0\<rparr>" 7]
  by (simp add: word_sless_alt)

subsection \<open>C3: TryReserveN\<close>

text \<open>
  C3, as stated, promises for every capacity that a successful \<open>TryReserveN(n)\<close> raises
  active by exactly \<open>n\<close> and never touches pending. \<open>setSize\<close> accepts every capacity
  below \<open>2\<^sup>3\<^sup>2\<close>, while active is a signed 32-bit half: with capacity \<open>2\<^sup>3\<^sup>2 - 1\<close>
  and an empty \<open>Group\<close>, \<open>TryReserveN(2\<^sup>3\<^sup>1)\<close> returns true, \<open>ActiveCount()\<close> is
  \<open>-2\<^sup>3\<^sup>1\<close> and the carry of \<open>counterUpdate\<close> has made \<open>PendingCount()\<close> 1.
\<close>

theorem TryReserveN_cases_counterexample:
  "TryReserveN \<lparr>waitChan = None, blockChan = Some (Chan 0), counter = 0, size_g = 4294967295\<rparr> 2147483648 =
     (Returns True, \<lparr>waitChan = None, blockChan = Some (Chan 0), counter = 6442450944, size_g = 4294967295\<rparr>) \<and>
   ActiveCount \<lparr>waitChan = None, blockChan = Some (Chan 0), counter = 6442450944, size_g = 4294967295\<rparr> = - 2147483648 \<and>
   PendingCount \<lparr>waitChan = None, blockChan = Some (Chan 0), counter = 6442450944, size_g = 4294967295\<rparr> = 1 \<and>
   ActiveCount \<lparr>waitChan = None, blockChan = Some (Chan 0), counter = 0, size_g = 4294967295\<rparr> = 0 \<and>
   PendingCount \<lparr>waitChan = None, blockChan = Some (Chan 0), counter = 0, size_g = 4294967295\<rparr> = 0"
  by (simp add: TryReserveN_def tryReserve_eq counterUpdate_def counterParts_def Let_def
      ActiveCount_def PendingCount_def word_sle_eq word_sless_alt)

text \<open>
  C3, amended. Let \<open>n > 0\<close>. On a \<open>Group\<close> with size \<open>C > 0\<close>, \<open>TryReserveN(n)\<close>
  returns true when \<open>n \<le> C\<close>, \<open>pending = 0\<close> and \<open>active + n \<le> C\<close>, and then, as long
  as \<open>active + n\<close> fits the signed 32-bit half (\<open>active + n \<le> 2\<^sup>3\<^sup>1 - 1\<close>, which every
  \<open>C \<le> 2\<^sup>3\<^sup>1 - 1\<close> ensures), active has grown by exactly \<open>n\<close> and pending and all other
  fields are unchanged. In every other case (\<open>n > C\<close>, or \<open>pending > 0\<close>, or
  \<open>active + n > C\<close>) it returns false and leaves the \<open>Group\<close> unchanged. On a \<open>Group\<close>
  with size 0 it always returns true, and active has grown by exactly \<open>n\<close>, with pending
  unchanged, as long as \<open>active + n \<le> 2\<^sup>3\<^sup>1 - 1\<close>.
\<close>

theorem TryReserveN_cases:
  assumes "0 <s n" and "counterParts (counter g) = (pending, active)"
  shows "(size_g g \<noteq> 0 \<longrightarrow>
           (if sint n \<le> uint (size_g g) \<and> pending = 0 \<and> sint active + sint n \<le> uint (size_g g)
            then (case TryReserveN g n of
                    (out, g') \<Rightarrow>
                      out = Returns True \<and>
                      (sint active + sint n \<le> 2 ^ 31 - 1 \<longrightarrow>
                         sint (ActiveCount g') = sint active + sint n \<and>
                         PendingCount g' = PendingCount g \<and>
                         g' = g\<lparr>counter := counter g'\<rparr>))
            else TryReserveN g n = (Returns False, g))) \<and>
         (size_g g = 0 \<longrightarrow>
           (case TryReserveN g n of
              (out, g') \<Rightarrow>
                out = Returns True \<and>
                (sint active + sint n \<le> 2 ^ 31 - 1 \<longrightarrow>
                   sint (ActiveCount g') = sint active + sint n \<and>
                   PendingCount g' = PendingCount g \<and>
                   g' = g\<lparr>counter := counter g'\<rparr>)))"
proof -
  from assms(1) have pos: "0 < sint n" by (simp add: word_sless_alt)
  have upd: "sint active + sint n \<le> 2 ^ 31 - 1 \<Longrightarrow>
      sint (ActiveCount (g\<lparr>counter := fst (counterUpdate g (counter g) 0 n)\<rparr>)) = sint active + sint n \<and>
      PendingCount (g\<lparr>counter := fst (counterUpdate g (counter g) 0 n)\<rparr>) = PendingCount g"
    using commit_parts [OF assms(2) pos] active_add [OF pos, of active] assms(2)
    by (simp add: ActiveCount_def PendingCount_def sint_up32s)
  show ?thesis
    using upd TryReserveN_limited [OF assms(1) _ assms(2)] TryReserveN_unlimited [OF assms(1)]
    by auto
qed

theorem TryReserveN_cases_witness:
  "(0 :: go_int) <s 1 \<and> counterParts 0 = (0, 0) \<and>
   TryReserveN \<lparr>waitChan = None, blockChan = Some (Chan 0), counter = 0, size_g = 2\<rparr> 1 =
     (Returns True, \<lparr>waitChan = None, blockChan = Some (Chan 0), counter = 1, size_g = 2\<rparr>) \<and>
   TryReserveN \<lparr>waitChan = None, blockChan = Some (Chan 0), counter = 2, size_g = 2\<rparr> 1 =
     (Returns False, \<lparr>waitChan = None, blockChan = Some (Chan 0), counter = 2, size_g = 2\<rparr>) \<and>
   TryReserveN zero_Group 5 = (Returns True, zero_Group\<lparr>counter := 5\<rparr>)"
  using TryReserveN_cases [of 1 "\<lparr>waitChan = None, blockChan = Some (Chan 0), counter = 0, size_g = 2\<rparr>" 0 0]
    TryReserveN_cases [of 1 "\<lparr>waitChan = None, blockChan = Some (Chan 0), counter = 2, size_g = 2\<rparr>" 0 2]
    TryReserveN_cases [of 5 zero_Group 0 0]
  by (simp add: TryReserveN_def tryReserve_eq counterUpdateLoop_eq counterUpdate_def counterParts_def Let_def
      zero_Group_def word_sle_eq word_sless_alt)

subsection \<open>C10: the counter after a negative-counter panic\<close>




subsection \<open>Sequential programs keep a settled Group settled\<close>

lemma parts_eq: "counterParts (counter g) = (pending_of g, active_of g)"
  by (simp add: pending_of_def active_of_def)



lemma wait_ok_counter [simp]: "wait_ok (g\<lparr>counter := c\<rparr>) r = wait_ok g r"
  by (simp add: wait_ok_def)

lemma wait_ok_now [simp]: "wait_ok g (r\<lparr>now := t\<rparr>) = wait_ok g r"
  by (simp add: wait_ok_def split: option.splits chan.splits)

lemma commit_state:
  assumes "0 < sint n" "sint (active_of g) + sint n \<le> 2 ^ 31 - 1"
  shows "pending_of (g\<lparr>counter := fst (counterUpdate g (counter g) 0 n)\<rparr>) = pending_of g \<and>
         sint (active_of (g\<lparr>counter := fst (counterUpdate g (counter g) 0 n)\<rparr>)) = sint (active_of g) + sint n"
  using commit_parts [OF parts_eq assms] active_add [OF assms]
  by (simp add: pending_of_def active_of_def)

lemma release_state:
  assumes "0 < sint n" "- (2 ^ 31) \<le> sint (active_of g) - sint n"
  shows "pending_of (g\<lparr>counter := fst (counterUpdate g (counter g) 0 (- n))\<rparr>) = pending_of g \<and>
         sint (active_of (g\<lparr>counter := fst (counterUpdate g (counter g) 0 (- n))\<rparr>)) = sint (active_of g) - sint n"
  using free_parts [OF parts_eq assms] active_sub [OF assms]
  by (simp add: pending_of_def active_of_def)





lemma notifyFree_settled: "pending_of g = 0 \<Longrightarrow> notifyFree g bc = Some (counter g)"
  by (simp add: notifyFree_idle pending_of_def)




lemma group_counter_restore [simp]: "g\<lparr>counter := c, counter := counter g\<rparr> = g"
  by simp










subsection \<open>C5: when FreeN panics\<close>




subsection \<open>Programs on a Group without a limit\<close>

lemma unlimited_commit:
  assumes "unlimited g" "0 < sint n" "sint (active_of g) + sint n \<le> 2 ^ 31 - 1"
  shows "unlimited (g\<lparr>counter := fst (counterUpdate g (counter g) 0 n)\<rparr>)"
  using assms commit_state [OF assms(2,3)] by (simp add: unlimited_def)

lemma unlimited_release:
  assumes "unlimited g" "0 < sint n" "- (2 ^ 31) \<le> sint (active_of g) - sint n"
  shows "unlimited (g\<lparr>counter := fst (counterUpdate g (counter g) 0 (- n))\<rparr>)"
  using assms release_state [OF assms(2,3)] by (simp add: unlimited_def)

lemma notifyWait_unlimited:
  "unlimited g \<Longrightarrow> unlimited (fst (snd (notifyWait g r p a)))"
  by (auto simp: notifyWait_def cas_waitChan_def unlimited_def pending_of_def
      split: option.splits sum.splits)

lemma initWaitChan_unlimited:
  "unlimited g \<Longrightarrow> unlimited (fst (snd (initWaitChan g r)))"
  by (auto simp: initWaitChan_def initWaitChanSlow_def make_chan_def cas_waitChan_def Let_def
      unlimited_def pending_of_def split: option.splits prod.splits)

lemma ReserveN_unlimited:
  assumes "unlimited g" "sint (active_of g) + sint n \<le> 2 ^ 31 - 1"
  shows "\<exists>out g' r'. ReserveN g r d n = Some (out, g', r') \<and> unlimited g' \<and>
           (0 < sint n \<and> \<not> done_ready d r \<longrightarrow>
              out = Returns True \<and> r' = r \<and> g' = g\<lparr>counter := counter g'\<rparr> \<and>
              sint (active_of g') = sint (active_of g) + sint n)"
proof (cases "0 < sint n")
  case False
  with assms show ?thesis by (simp add: ReserveN_def word_sle_eq)
next
  case True
  then have "\<not> n \<le>s 0" by (simp add: word_sle_eq)
  with assms True unlimited_commit [OF assms(1) True assms(2)] commit_state [OF True assms(2)]
  show ?thesis
    by (auto simp: ReserveN_def counterUpdateLoop_eq unlimited_def)
qed

lemma TryReserveN_unlimited_inv:
  assumes "unlimited g" "sint (active_of g) + sint n \<le> 2 ^ 31 - 1"
  shows "\<exists>out g'. TryReserveN g n = (out, g') \<and> unlimited g' \<and>
           (0 < sint n \<longrightarrow>
              out = Returns True \<and> g' = g\<lparr>counter := counter g'\<rparr> \<and>
              sint (active_of g') = sint (active_of g) + sint n)"
proof (cases "0 < sint n")
  case False
  with assms show ?thesis by (simp add: TryReserveN_def word_sle_eq)
next
  case True
  then have "\<not> n \<le>s 0" by (simp add: word_sle_eq)
  with assms True unlimited_commit [OF assms(1) True assms(2)] commit_state [OF True assms(2)]
  show ?thesis
    by (auto simp: TryReserveN_def counterUpdateLoop_eq unlimited_def)
qed

lemma FreeN_unlimited:
  assumes "unlimited g" "- (2 ^ 31) \<le> sint (active_of g) - sint n"
  shows "\<exists>out g' r'. FreeN g r n = Some (out, g', r') \<and> unlimited g'"
proof (cases "0 < sint n")
  case False
  with assms show ?thesis by (simp add: FreeN_def word_sle_eq)
next
  case True
  let ?g1 = "g\<lparr>counter := fst (counterUpdate g (counter g) 0 (- n))\<rparr>"
  have pos: "\<not> n \<le>s 0" using True by (simp add: word_sle_eq)
  have u1: "unlimited ?g1" by (rule unlimited_release [OF assms(1) True assms(2)])
  then have p0: "pending_of ?g1 = 0" by (simp add: unlimited_def)
  have nf: "notifyFree ?g1 bc = Some (counter ?g1)" for bc
    using p0 by (rule notifyFree_settled)
  obtain out g2 r2 where nw: "notifyWait ?g1 r 0 (snd (counterParts (counter ?g1))) = (out, g2, r2)"
    by (cases "notifyWait ?g1 r 0 (snd (counterParts (counter ?g1)))") auto
  with notifyWait_unlimited [OF u1, of r 0 "snd (counterParts (counter ?g1))"]
  have u2: "unlimited g2" by simp
  show ?thesis
    using pos nf nw u2 p0
    by (cases "blockChan g"; cases out)
       (auto simp: FreeN_def counterUpdateLoop_eq Let_def pending_of_def)
qed

lemma up32_zero_iff: "(ucast (p :: 32 word) :: uint64) = 0 \<longleftrightarrow> p = 0"
proof -
  have "(ucast p :: uint64) = 0 \<longleftrightarrow> uint (ucast p :: uint64) = 0"
    by (simp add: word_uint_eq_iff)
  also have "\<dots> \<longleftrightarrow> p = 0"
    by (simp only: uint_up32 uint_0_iff)
  finally show ?thesis .
qed

lemma PendingCount_zero_iff: "PendingCount g = 0 \<longleftrightarrow> pending_of g = 0"
  by (simp add: PendingCount_def pending_of_def up32_zero_iff)

lemma Size_zero_iff: "Size g = 0 \<longleftrightarrow> size_g g = 0"
  by (simp add: Size_def up32_zero_iff)

lemma sint_ActiveCount: "sint (ActiveCount g) = sint (active_of g)"
  by (simp add: ActiveCount_def active_of_def sint_up32s)

lemma SetSize_unlimited:
  "unlimited g \<Longrightarrow> n \<le>s 0 \<Longrightarrow> unlimited (fst (snd (SetSize g r n)))"
  by (simp add: SetSize_def setSize_nonpositive)

lemma step_unlimited:
  assumes "unlimited g" "op_fits g c"
  shows "\<exists>out g' r'. step c g r = Some (out, g', r') \<and> unlimited g'"
proof (cases c)
  case OpReserve
  with ReserveN_unlimited [OF assms(1), of 1 r nilDone] assms(2) show ?thesis
    by (auto simp: lift_result_def Reserve_def split: outcome.splits)
next
  case (OpReserveN d n)
  with ReserveN_unlimited [OF assms(1), of n r d] assms(2) show ?thesis
    by (auto simp: lift_result_def)
next
  case (OpTryReserveN n)
  with TryReserveN_unlimited_inv [OF assms(1), of n] assms(2) show ?thesis
    by (auto simp: lift_result_def)
next
  case OpFree
  with FreeN_unlimited [OF assms(1), of 1 r] assms(2) show ?thesis
    by (auto simp: lift_result_def Free_def)
next
  case (OpFreeN n)
  with FreeN_unlimited [OF assms(1), of n r] assms(2) show ?thesis
    by (auto simp: lift_result_def)
next
  case OpWait
  with initWaitChan_unlimited [OF assms(1), of r] show ?thesis
    by (cases "initWaitChan g r") (auto simp: lift_result_def Wait_def split: outcome.splits)
next
  case OpWaitChan
  with initWaitChan_unlimited [OF assms(1), of r] show ?thesis
    by (cases "initWaitChan g r") (auto simp: lift_result_def WaitChan_def)
next
  case (OpSetSize n)
  with SetSize_unlimited [OF assms(1), of n r] assms(2) show ?thesis
    by (cases "SetSize g r n") (auto simp: lift_result_def)
qed

lemma run_unlimited:
  assumes "unlimited g" "in_range cs g r"
  shows "\<exists>outs g' r'. run cs g r = Some (outs, g', r') \<and> unlimited g'"
  using assms
proof (induction cs arbitrary: g r)
  case Nil
  then show ?case by simp
next
  case (Cons c cs)
  from Cons.prems have fit: "op_fits g c" by simp
  from step_unlimited [OF Cons.prems(1) fit]
  obtain out g1 r1 where st: "step c g r = Some (out, g1, r1)" and u1: "unlimited g1"
    by blast
  show ?case
  proof (cases out)
    case (Returns v)
    with Cons.prems st have "in_range cs g1 r1" by simp
    from Cons.IH [OF u1 this] st Returns show ?thesis by auto
  next
    case (Panics msg)
    with st u1 show ?thesis by auto
  next
    case Blocks
    with st u1 show ?thesis by auto
  qed
qed

lemma in_range_take: "in_range cs g r \<Longrightarrow> in_range (take k cs) g r"
proof (induction cs arbitrary: k g r)
  case Nil
  then show ?case by simp
next
  case (Cons c cs)
  show ?case
  proof (cases k)
    case 0
    then show ?thesis by simp
  next
    case (Suc j)
    with Cons show ?thesis
      by (auto split: option.splits prod.splits outcome.splits)
  qed
qed

subsection \<open>C6: a Group of size 0 has nothing pending\<close>

text \<open>
  C6, as stated, has pending at 0 after every operation on a \<open>Group\<close> of size 0. The
  carry of \<open>counterUpdate\<close> breaks this once active leaves the signed 32-bit range: on the
  zero \<open>Group\<close>, \<open>TryReserveN(2\<^sup>3\<^sup>1)\<close> returns true and leaves \<open>PendingCount() = 1\<close> and
  \<open>ActiveCount() = -2\<^sup>3\<^sup>1\<close>.
\<close>

theorem unlimited_never_pending_counterexample:
  "Size zero_Group = 0 \<and> PendingCount zero_Group = 0 \<and> ActiveCount zero_Group = 0 \<and>
   run [OpTryReserveN 2147483648] zero_Group init_runtime =
     Some ([Returns (VBool True)], zero_Group\<lparr>counter := 6442450944\<rparr>, init_runtime) \<and>
   Size (zero_Group\<lparr>counter := 6442450944\<rparr>) = 0 \<and>
   PendingCount (zero_Group\<lparr>counter := 6442450944\<rparr>) = 1 \<and>
   ActiveCount (zero_Group\<lparr>counter := 6442450944\<rparr>) = - 2147483648"
  by code_simp

text \<open>
  C6, amended. Take a \<open>Group\<close> of size 0 with pending 0, and a program of \<open>Reserve\<close>,
  \<open>ReserveN\<close>, \<open>TryReserveN\<close>, \<open>Free\<close>, \<open>FreeN\<close>, \<open>Wait\<close>, \<open>WaitChan\<close> and
  \<open>SetSize\<close> with arguments that are not positive, in which every reserve keeps
  \<open>active + n \<le> 2\<^sup>3\<^sup>1 - 1\<close> and every free keeps \<open>active - n \<ge> -2\<^sup>3\<^sup>1\<close>. Then after
  every call of the program, however it ends, the size is 0 and pending is 0. And on every
  such \<open>Group\<close>, \<open>Reserve()\<close>, \<open>ReserveN(d, n)\<close> and \<open>TryReserveN(n)\<close> with \<open>n > 0\<close>,
  \<open>d\<close> not ready and \<open>active + n \<le> 2\<^sup>3\<^sup>1 - 1\<close> return at once with success, active has
  grown by exactly \<open>n\<close>, and pending is still 0.
\<close>

theorem unlimited_never_pending:
  assumes "Size g = 0" and "PendingCount g = 0" and "in_range cs g r"
  shows "(\<forall>k \<le> length cs. \<exists>outs g' r'. run (take k cs) g r = Some (outs, g', r') \<and>
            Size g' = 0 \<and> PendingCount g' = 0) \<and>
         (0 < sint n \<and> \<not> done_ready d r \<and> sint (ActiveCount g) + sint n \<le> 2 ^ 31 - 1 \<longrightarrow>
            (\<exists>g'. ReserveN g r d n = Some (Returns True, g', r) \<and>
                  TryReserveN g n = (Returns True, g') \<and>
                  sint (ActiveCount g') = sint (ActiveCount g) + sint n \<and>
                  PendingCount g' = 0 \<and> Size g' = 0)) \<and>
         (sint (ActiveCount g) + 1 \<le> 2 ^ 31 - 1 \<longrightarrow>
            (\<exists>g'. Reserve g r = Some (Returns (), g', r) \<and>
                  sint (ActiveCount g') = sint (ActiveCount g) + 1 \<and>
                  PendingCount g' = 0 \<and> Size g' = 0))"
proof -
  from assms have u: "unlimited g"
    by (simp add: unlimited_def PendingCount_zero_iff Size_zero_iff)
  have obs: "unlimited g' \<Longrightarrow> Size g' = 0 \<and> PendingCount g' = 0" for g'
    by (simp add: unlimited_def PendingCount_zero_iff Size_zero_iff)
  have seq: "\<forall>k \<le> length cs. \<exists>outs g' r'. run (take k cs) g r = Some (outs, g', r') \<and>
            Size g' = 0 \<and> PendingCount g' = 0"
    using run_unlimited [OF u in_range_take [OF assms(3)]] obs by blast
  have one: "\<exists>g'. ReserveN g r d n = Some (Returns True, g', r) \<and>
                  TryReserveN g n = (Returns True, g') \<and>
                  sint (ActiveCount g') = sint (ActiveCount g) + sint n \<and>
                  PendingCount g' = 0 \<and> Size g' = 0"
    if "0 < sint n" "\<not> done_ready d r" "sint (ActiveCount g) + sint n \<le> 2 ^ 31 - 1" for n d
  proof -
    let ?g' = "g\<lparr>counter := fst (counterUpdate g (counter g) 0 n)\<rparr>"
    from that have fit: "sint (active_of g) + sint n \<le> 2 ^ 31 - 1" by (simp add: sint_ActiveCount)
    have npos: "\<not> n \<le>s 0" "0 <s n" using that(1) by (simp_all add: word_sle_eq word_sless_alt)
    have "ReserveN g r d n = Some (Returns True, ?g', r)"
      using u npos that(2) by (auto simp: ReserveN_def counterUpdateLoop_eq unlimited_def)
    moreover have "TryReserveN g n = (Returns True, ?g')"
      using u npos by (simp add: TryReserveN_unlimited unlimited_def)
    moreover have "sint (ActiveCount ?g') = sint (ActiveCount g) + sint n"
      using commit_state [OF that(1) fit] by (simp add: sint_ActiveCount)
    moreover have "PendingCount ?g' = 0 \<and> Size ?g' = 0"
      using obs [OF unlimited_commit [OF u that(1) fit]] by simp
    ultimately show ?thesis by blast
  qed
  have res: "\<exists>g'. Reserve g r = Some (Returns (), g', r) \<and>
                  sint (ActiveCount g') = sint (ActiveCount g) + 1 \<and>
                  PendingCount g' = 0 \<and> Size g' = 0"
    if "sint (ActiveCount g) + 1 \<le> 2 ^ 31 - 1"
    using one [of 1 nilDone] that by (auto simp: Reserve_def done_ready_def)
  from seq one res show ?thesis by blast
qed

theorem unlimited_never_pending_witness:
  "Size zero_Group = 0 \<and> PendingCount zero_Group = 0 \<and>
   in_range [OpReserve, OpReserveN (readyAt None) 4, OpTryReserveN 2, OpFreeN 7, OpWait] zero_Group init_runtime \<and>
   run [OpReserve, OpReserveN (readyAt None) 4, OpTryReserveN 2, OpFreeN 7, OpWait] zero_Group init_runtime =
     Some ([Returns VUnit, Returns (VBool True), Returns (VBool True), Returns VUnit, Returns VUnit],
           zero_Group, init_runtime) \<and>
   ReserveN zero_Group init_runtime (readyAt None) 4 =
     Some (Returns True, zero_Group\<lparr>counter := 4\<rparr>, init_runtime)"
proof -
  have facts: "Size zero_Group = 0 \<and> PendingCount zero_Group = 0 \<and>
   in_range [OpReserve, OpReserveN (readyAt None) 4, OpTryReserveN 2, OpFreeN 7, OpWait] zero_Group init_runtime \<and>
   run [OpReserve, OpReserveN (readyAt None) 4, OpTryReserveN 2, OpFreeN 7, OpWait] zero_Group init_runtime =
     Some ([Returns VUnit, Returns (VBool True), Returns (VBool True), Returns VUnit, Returns VUnit],
           zero_Group, init_runtime) \<and>
   ReserveN zero_Group init_runtime (readyAt None) 4 =
     Some (Returns True, zero_Group\<lparr>counter := 4\<rparr>, init_runtime)"
    by code_simp
  from unlimited_never_pending [of zero_Group
      "[OpReserve, OpReserveN (readyAt None) 4, OpTryReserveN 2, OpFreeN 7, OpWait]" init_runtime
      4 "readyAt None"] facts
  show ?thesis by blast
qed

end
